theory Spec2Isabelle
  imports Complex_Main "HOL-Library.Word"
begin

section \<open>Numbers and time\<close>

text \<open>
  Unsigned 32-bit and 64-bit integers of the C++ code are words: addition and
  multiplication wrap around. A finite value of a C++ \<open>double\<close> is modelled by a
  real number. In the state variables that stay doubles (\<open>m_qAvg\<close>, \<open>m_markProb\<close>,
  \<open>m_alpha\<close>) the operations are those of the real numbers: their rounding is not
  modelled. Where \<open>GetSsThresh\<close> converts a double to the integer it returns, the
  rounding decides the result, and every operation is rounded as the binary64 format
  rounds it (\<open>round_double\<close> below). The one floating-point operation of the code whose
  operands are finite and whose result may not be is the division by \<open>m_maxBytes\<close> in
  \<open>CalculateProb\<close>: its result has the type \<open>xdouble\<close>, which adds the infinities
  and NaN.
\<close>

type_synonym uint32_t = "32 word"
type_synonym uint64_t = "64 word"
type_synonym double = real

datatype xdouble = Finite double | PlusInf | MinusInf | NaN

text \<open>Division of a finite double by an unsigned integer converted to double (so a zero
  divisor is the positive zero): the quotient when the divisor is not zero, and
  otherwise an infinity with the sign of the dividend, or NaN for \<open>0 / 0\<close>.\<close>

definition ddiv :: "double \<Rightarrow> uint32_t \<Rightarrow> xdouble" where
  "ddiv x d =
     (if d \<noteq> 0 then Finite (x / real (unat d))
      else if 0 < x then PlusInf
      else if x < 0 then MinusInf
      else NaN)"

text \<open>The comparison \<open>u < p\<close> of a finite double with a possibly non-finite one:
  every comparison with NaN is false.\<close>

fun dless :: "double \<Rightarrow> xdouble \<Rightarrow> bool" where
  "dless u (Finite p) = (u < p)"
| "dless u PlusInf = True"
| "dless u MinusInf = False"
| "dless u NaN = False"


text \<open>Conversion of a double to \<open>uint32_t\<close> (an implicit conversion or a
  \<open>static_cast\<close>): the value is truncated towards zero; the behaviour is undefined
  (\<open>None\<close>) when the truncated value is not representable.\<close>

definition trunc :: "double \<Rightarrow> int" where
  "trunc x = (if 0 \<le> x then \<lfloor>x\<rfloor> else \<lceil>x\<rceil>)"

definition double_to_uint32 :: "double \<Rightarrow> uint32_t option" where
  "double_to_uint32 x =
     (let t = trunc x
      in if 0 \<le> t \<and> t < 2 ^ 32 then Some (word_of_int t) else None)"

text \<open>
  Rounding to the binary64 format, to nearest with ties to even. For \<open>0 < n\<close>,
  \<open>log2_floor n\<close> is the largest \<open>k\<close> with \<open>2 ^ k \<le> n\<close> and \<open>log2_ceil n\<close> the least
  \<open>k\<close> with \<open>n \<le> 2 ^ k\<close>; \<open>exponent x\<close> is the \<open>e\<close> with
  \<open>2 ^ e \<le> \<bar>x\<bar> < 2 ^ (e + 1)\<close>. The doubles around \<open>x\<close> are the multiples of
  \<open>ulp x\<close>: 53 significant bits, and exponents not below that of the least normal
  number. A result beyond the largest double, which the format rounds to an infinity,
  is left as it is: it is out of the range of every conversion to an integer either way.
\<close>

fun log2_floor :: "nat \<Rightarrow> nat" where
  "log2_floor n = (if n < 2 then 0 else Suc (log2_floor (n div 2)))"

declare log2_floor.simps [simp del]

definition log2_ceil :: "nat \<Rightarrow> nat" where
  "log2_ceil n = (if n \<le> 1 then 0 else Suc (log2_floor (n - 1)))"

definition exponent :: "double \<Rightarrow> int" where
  "exponent x =
     (if 1 \<le> \<bar>x\<bar> then int (log2_floor (nat \<lfloor>\<bar>x\<bar>\<rfloor>))
      else - int (log2_ceil (nat \<lceil>1 / \<bar>x\<bar>\<rceil>)))"

definition ulp :: "double \<Rightarrow> double" where
  "ulp x = 2 powi (max (exponent x) (- 1022) - 52)"

text \<open>The integer nearest to \<open>t\<close>, the even one of two that are equally near.\<close>

definition rne :: "real \<Rightarrow> int" where
  "rne t =
     (let f = \<lfloor>t\<rfloor>; d = t - of_int f
      in if d < 1 / 2 then f
         else if 1 / 2 < d then f + 1
         else if even f then f else f + 1)"

definition round_double :: "real \<Rightarrow> double" where
  "round_double x = of_int (rne (x / ulp x)) * ulp x"

text \<open>A \<open>Time\<close> is a signed number of ticks of the simulator's clock. The class is
  defined elsewhere in the simulator, and its resolution can be set: the number of ticks in
  a second is a parameter of \<open>GetSeconds\<close>.\<close>

type_synonym Time = int


definition Seconds0 :: Time where
  "Seconds0 = 0"

text \<open>A failed \<open>NS_ABORT_MSG_IF\<close> or \<open>NS_ASSERT_MSG\<close> ends the program with its
  message.\<close>

datatype error = Abort string

section \<open>The ShQ queue discipline (shq-queue-disc.h, shq-queue-disc.cc)\<close>

subsection \<open>Packets and the backing queue\<close>

text \<open>
  Modelled from the spec: the queue item and the backing FIFO queue are classes of the
  simulator (\<open>QueueDiscItem\<close>, \<open>QueueSize\<close>, \<open>QueueDisc\<close>, \<open>DropTailQueue\<close>)
  whose code is elsewhere in the simulator. An item carries its byte length, its enqueue
  timestamp, whether it is ECN-capable and whether its congestion-experienced codepoint
  is set. The queue is the ordered sequence of its items, bounded by a maximum size in
  packets or in bytes, whichever unit is configured; its occupancy is the number of its
  items or the sum of their byte lengths.
\<close>

record QueueDiscItem =
  GetSize :: uint32_t
  GetTimeStamp :: Time
  IsEcnCapable :: bool
  CongestionExperienced :: bool

datatype QueueSizeUnit = PACKETS | BYTES

datatype QueueSize = QueueSize (GetUnit: QueueSizeUnit) (GetValue: nat)

definition GetNPackets :: "QueueDiscItem list \<Rightarrow> nat" where
  "GetNPackets q = length q"

definition GetNBytes :: "QueueDiscItem list \<Rightarrow> nat" where
  "GetNBytes q = sum_list (map (\<lambda>i. unat (GetSize i)) q)"

definition IsEmpty :: "QueueDiscItem list \<Rightarrow> bool" where
  "IsEmpty q = (GetNPackets q = 0)"

text \<open>Modelled from the spec: the occupancy of the queue in a unit
  (\<open>queue.currentOccupancy()\<close>).\<close>

definition QueueCurrentSize :: "QueueSizeUnit \<Rightarrow> QueueDiscItem list \<Rightarrow> QueueSize" where
  "QueueCurrentSize u q =
     QueueSize u (case u of PACKETS \<Rightarrow> GetNPackets q | BYTES \<Rightarrow> GetNBytes q)"

text \<open>Modelled from the spec: \<open>nQueued + item\<close>, the occupancy as if the item
  were added.\<close>

definition QueueSize_plus :: "QueueSize \<Rightarrow> QueueDiscItem \<Rightarrow> QueueSize" where
  "QueueSize_plus n item =
     QueueSize (GetUnit n)
       (case GetUnit n of
          PACKETS \<Rightarrow> GetValue n + 1
        | BYTES \<Rightarrow> GetValue n + unat (GetSize item))"

text \<open>Modelled from the spec: \<open>a > b\<close> on queue sizes compares the values.\<close>

definition QueueSize_gt :: "QueueSize \<Rightarrow> QueueSize \<Rightarrow> bool" where
  "QueueSize_gt a b = (GetValue a > GetValue b)"

text \<open>Modelled from the spec: \<open>packet.isEcnCapable()\<close> and
  \<open>packet.setCongestionExperienced()\<close>. Marking succeeds on an ECN-capable packet,
  whose codepoint it sets, and fails on any other, which it leaves as it is.\<close>

definition Mark :: "QueueDiscItem \<Rightarrow> bool \<times> QueueDiscItem" where
  "Mark item =
     (if IsEcnCapable item then (True, item\<lparr>CongestionExperienced := True\<rparr>)
      else (False, item))"

text \<open>Modelled from the spec: \<open>queue.enqueue(packet)\<close> of the drop-tail queue with
  the configured capacity, which refuses an item that would exceed it.\<close>

definition Enqueue :: "QueueSize \<Rightarrow> QueueDiscItem list \<Rightarrow> QueueDiscItem
    \<Rightarrow> bool \<times> QueueDiscItem list" where
  "Enqueue maxSize q item =
     (if QueueSize_gt (QueueSize_plus (QueueCurrentSize (GetUnit maxSize) q) item) maxSize
      then (False, q)
      else (True, q @ [item]))"

text \<open>Modelled from the spec: \<open>queue.dequeue()\<close> removes and returns the head of
  the queue, and returns nothing from a queue without items.\<close>

definition Dequeue :: "QueueDiscItem list \<Rightarrow> QueueDiscItem option \<times> QueueDiscItem list" where
  "Dequeue q = (case q of [] \<Rightarrow> (None, []) | item # rest \<Rightarrow> (Some item, rest))"

subsection \<open>The state of the discipline\<close>

text \<open>The constructor gives the queue disc the size policy of a single internal queue:
  the maximum size of the queue disc is the maximum size of that queue, and its current
  size is the occupancy of that queue.\<close>

text \<open>The reasons of shq-queue-disc.h, and the reason the queue disc gives when its
  internal queue refuses an item.\<close>

definition FORCED_DROP :: string where
  "FORCED_DROP = ''Forced drop''"

definition UNFORCED_DROP :: string where
  "UNFORCED_DROP = ''Unorced drop''"

definition UNFORCED_MARK :: string where
  "UNFORCED_MARK = ''Unforced mark''"

definition INTERNAL_QUEUE_DROP :: string where
  "INTERNAL_QUEUE_DROP = ''Dropped by internal queue''"

text \<open>What an operation reports to the traces of the queue disc.\<close>

datatype trace = DropBeforeEnqueue QueueDiscItem string | MarkTrace QueueDiscItem string

text \<open>Modelled from the spec: \<open>scheduleAfter(duration, callback)\<close>. A pending
  event is the time at which the callback is due.\<close>

type_synonym EventId = "Time option"

definition Schedule :: "Time \<Rightarrow> Time \<Rightarrow> EventId" where
  "Schedule now delay = Some (now + delay)"

record ShqQueueDisc =
  m_sUpdate :: Time
  m_tInterval :: Time
  m_meanPktSize :: uint32_t
  m_maxP :: double
  m_alpha :: double
  m_linkBandwidth :: uint64_t
  m_useEcn :: bool
  m_countBytes :: uint32_t
  m_qAvg :: double
  m_qCur :: double
  m_markProb :: xdouble
  m_qDelay :: Time
  m_maxBytes :: uint32_t
  m_rtrsEvent :: EventId
  m_maxSize :: QueueSize
  InternalQueue :: "QueueDiscItem list"

definition GetMaxSize :: "ShqQueueDisc \<Rightarrow> QueueSize" where
  "GetMaxSize s = m_maxSize s"

definition GetCurrentSize :: "ShqQueueDisc \<Rightarrow> QueueSize" where
  "GetCurrentSize s = QueueCurrentSize (GetUnit (GetMaxSize s)) (InternalQueue s)"

subsection \<open>The operations\<close>

text \<open>\<open>ShouldMark\<close>: the draw \<open>u\<close> of the uniform random variable is an argument.\<close>

definition ShouldMark :: "ShqQueueDisc \<Rightarrow> double \<Rightarrow> bool" where
  "ShouldMark s u = (if dless u (m_markProb s) then True else False)"

text \<open>\<open>DoEnqueue\<close> returns its result, what it reported to the traces, and the new
  state. The draw \<open>u\<close> is read only on the paths that call \<open>ShouldMark\<close>.\<close>

definition EnqueueInternal :: "ShqQueueDisc \<Rightarrow> QueueDiscItem \<Rightarrow> trace list
    \<Rightarrow> bool \<times> trace list \<times> ShqQueueDisc" where
  "EnqueueInternal s item tr =
     (let (retval, q) = Enqueue (GetMaxSize s) (InternalQueue s) item
      in (retval,
          (if retval then tr else tr @ [DropBeforeEnqueue item INTERNAL_QUEUE_DROP]),
          s\<lparr>InternalQueue := q\<rparr>))"

definition DoEnqueue :: "ShqQueueDisc \<Rightarrow> double \<Rightarrow> QueueDiscItem
    \<Rightarrow> bool \<times> trace list \<times> ShqQueueDisc" where
  "DoEnqueue s u item =
     (let nQueued = GetCurrentSize s
      in if QueueSize_gt (QueueSize_plus nQueued item) (GetMaxSize s)
         then (False, [DropBeforeEnqueue item FORCED_DROP], s)
         else
           let s1 = s\<lparr>m_countBytes := m_countBytes s + GetSize item\<rparr>
           in if ShouldMark s1 u
              then
                (if \<not> m_useEcn s1
                 then (False, [DropBeforeEnqueue item UNFORCED_DROP], s1)
                 else
                   (case Mark item of
                      (False, item') \<Rightarrow>
                        (False, [DropBeforeEnqueue item' UNFORCED_DROP], s1)
                    | (True, item') \<Rightarrow>
                        EnqueueInternal s1 item' [MarkTrace item' UNFORCED_MARK]))
              else EnqueueInternal s1 item [])"


text \<open>\<open>CalculateProb\<close>, run by the timer at the time \<open>now\<close>.\<close>

definition CalculateProb :: "ShqQueueDisc \<Rightarrow> Time \<Rightarrow> ShqQueueDisc" where
  "CalculateProb s now =
     (let nQueued = (of_nat (GetValue (QueueCurrentSize (GetUnit (GetMaxSize s)) (InternalQueue s)))
                      :: uint32_t);
          s1 = s\<lparr>m_countBytes := m_countBytes s + nQueued * m_meanPktSize s\<rparr>;
          s2 = s1\<lparr>m_qAvg := m_qAvg s1 * (1 - m_alpha s1)
                       + (real (unat (m_countBytes s1)) * m_alpha s1)\<rparr>;
          p = ddiv (m_maxP s2 * m_qAvg s2) (m_maxBytes s2);
          s3 = s2\<lparr>m_markProb := p\<rparr>;
          s4 = s3\<lparr>m_countBytes := 0\<rparr>
      in s4\<lparr>m_rtrsEvent := Schedule now (m_tInterval s4)\<rparr>)"

text \<open>\<open>DoDequeue\<close>, called at the time \<open>now\<close>. The assertion on the item that
  the internal queue returns is a branch of its own.\<close>

definition DoDequeue :: "ShqQueueDisc \<Rightarrow> Time
    \<Rightarrow> error + (QueueDiscItem option \<times> ShqQueueDisc)" where
  "DoDequeue s now =
     (if IsEmpty (InternalQueue s) then Inr (None, s)
      else
        let (dequeued, q) = Dequeue (InternalQueue s);
            s1 = s\<lparr>InternalQueue := q\<rparr>
        in (case dequeued of
              None \<Rightarrow> Inl (Abort ''Dequeue null, but internal queue not empty'')
            | Some item \<Rightarrow>
                let s2 = s1\<lparr>m_qDelay := now - GetTimeStamp item\<rparr>;
                    s3 = (if GetNBytes (InternalQueue s2) = 0
                          then s2\<lparr>m_qDelay := Seconds0\<rparr> else s2)
                in Inr (Some item, s3)))"

definition GetQueueDelay :: "ShqQueueDisc \<Rightarrow> Time" where
  "GetQueueDelay s = m_qDelay s"

text \<open>The backlog that \<open>CalculateProb\<close> reads, as the \<open>uint32_t\<close> it is
  stored in.\<close>

definition backlog :: "ShqQueueDisc \<Rightarrow> uint32_t" where
  "backlog s = of_nat (GetValue (QueueCurrentSize (GetUnit (GetMaxSize s)) (InternalQueue s)))"

text \<open>The events the scheduler delivers to a queue disc, one at a time: the arrival
  of a packet (with the random draw its admission may read), a departure, and the expiry
  of the timer.\<close>

datatype shq_event = Arrival double QueueDiscItem | Departure Time | TimerExpiry Time

fun shq_step :: "ShqQueueDisc \<Rightarrow> shq_event \<Rightarrow> error + ShqQueueDisc" where
  "shq_step s (Arrival u item) = Inr (snd (snd (DoEnqueue s u item)))"
| "shq_step s (Departure now) =
     (case DoDequeue s now of Inl e \<Rightarrow> Inl e | Inr (item, s') \<Rightarrow> Inr s')"
| "shq_step s (TimerExpiry now) = Inr (CalculateProb s now)"

fun shq_run :: "ShqQueueDisc \<Rightarrow> shq_event list \<Rightarrow> error + ShqQueueDisc" where
  "shq_run s [] = Inr s"
| "shq_run s (e # es) =
     (case shq_step s e of Inl err \<Rightarrow> Inl err | Inr s' \<Rightarrow> shq_run s' es)"

text \<open>The capacity invariant: the occupancy of the backing queue does not exceed the
  maximum size.\<close>

definition within_capacity :: "ShqQueueDisc \<Rightarrow> bool" where
  "within_capacity s = (\<not> QueueSize_gt (GetCurrentSize s) (GetMaxSize s))"

section \<open>The congestion estimator (tcp-lgc.cc)\<close>

text \<open>
  The file defines \<open>Init\<close>, \<open>GetSsThresh\<close> and \<open>PktsAcked\<close> under the class
  name \<open>TcpDctcp\<close> and the constructors, \<open>InitializeDctcpAlpha\<close> and \<open>Reset\<close>
  under \<open>TcpLgc\<close>; they work on the same members and are modelled on one state.

  The socket state \<open>TcpSocketState\<close> and the sequence numbers are declared in other
  files of the simulator. The record below has the members the file reads and writes, the
  enumerations have their values in the simulator, and the comparison \<open>>=\<close> of
  sequence numbers is a parameter of \<open>PktsAcked\<close>.
\<close>

type_synonym SequenceNumber32 = "32 word"

datatype UseEcn_t = Off | On | AcceptOnly
datatype EcnCodePoint_t = NotECT | Ect1 | Ect0 | CongExp
datatype EcnMode_t = ClassicEcn | DctcpEcn
datatype EcnState_t =
  ECN_DISABLED | ECN_IDLE | ECN_CE_RCVD | ECN_SENDING_ECE | ECN_ECE_RCVD | ECN_CWR_SENT

record TcpSocketState =
  m_cWnd :: uint32_t
  m_segmentSize :: uint32_t
  m_ecnState :: EcnState_t
  m_nextTxSequence :: SequenceNumber32
  m_lastAckedSeq :: SequenceNumber32
  m_useEcn_tcb :: UseEcn_t
  m_ecnMode :: EcnMode_t
  m_ectCodePoint :: EcnCodePoint_t

record TcpLgc =
  m_ackedBytesEcn :: uint32_t
  m_ackedBytesTotal :: uint32_t
  m_priorRcvNxt :: SequenceNumber32
  m_priorRcvNxtFlag :: bool
  m_alpha_lgc :: double
  m_nextSeq :: SequenceNumber32
  m_nextSeqFlag :: bool
  m_ceState :: bool
  m_delayedAckReserved :: bool
  m_g :: double
  m_useEct0 :: bool
  m_initialized :: bool

text \<open>The default constructor. It does not initialise \<open>m_alpha\<close>, \<open>m_g\<close> and
  \<open>m_useEct0\<close>: the values they hold are arguments.\<close>

definition TcpLgc_new :: "double \<Rightarrow> double \<Rightarrow> bool \<Rightarrow> TcpLgc" where
  "TcpLgc_new alpha g useEct0 =
     \<lparr>m_ackedBytesEcn = 0, m_ackedBytesTotal = 0,
      m_priorRcvNxt = 0, m_priorRcvNxtFlag = False,
      m_alpha_lgc = alpha,
      m_nextSeq = 0, m_nextSeqFlag = False,
      m_ceState = False, m_delayedAckReserved = False,
      m_g = g, m_useEct0 = useEct0,
      m_initialized = False\<rparr>"

definition Init :: "TcpLgc \<Rightarrow> TcpSocketState \<Rightarrow> TcpLgc \<times> TcpSocketState" where
  "Init s tcb =
     (let tcb1 = tcb\<lparr>m_useEcn_tcb := On\<rparr>;
          tcb2 = tcb1\<lparr>m_ecnMode := DctcpEcn\<rparr>;
          tcb3 = tcb2\<lparr>m_ectCodePoint := (if m_useEct0 s then Ect0 else Ect1)\<rparr>
      in (s\<lparr>m_initialized := True\<rparr>, tcb3))"

text \<open>\<open>GetSsThresh\<close> is a member function of the estimator that reads the socket
  state: it returns its result and the state of the estimator after the call. The
  division, the subtraction and the multiplication are operations on doubles, each
  rounded; the constants and the window convert to doubles exactly. The result is
  \<open>None\<close> where the conversion to \<open>uint32_t\<close> is undefined.\<close>

definition GetSsThresh :: "TcpLgc \<Rightarrow> TcpSocketState \<Rightarrow> uint32_t
    \<Rightarrow> uint32_t option \<times> TcpLgc" where
  "GetSsThresh s tcb bytesInFlight =
     (double_to_uint32
        (round_double
           (round_double (1 - round_double (m_alpha_lgc s / 2)) * real (unat (m_cWnd tcb)))),
      s)"

definition Reset :: "TcpLgc \<Rightarrow> TcpSocketState \<Rightarrow> TcpLgc" where
  "Reset s tcb =
     (let s1 = s\<lparr>m_nextSeq := m_nextTxSequence tcb\<rparr>;
          s2 = s1\<lparr>m_ackedBytesEcn := 0\<rparr>
      in s2\<lparr>m_ackedBytesTotal := 0\<rparr>)"

text \<open>What \<open>PktsAcked\<close> reports to the trace source \<open>CongestionEstimate\<close>.\<close>

datatype lgc_trace = CongestionEstimate uint32_t uint32_t double

definition PktsAcked :: "(SequenceNumber32 \<Rightarrow> SequenceNumber32 \<Rightarrow> bool)
    \<Rightarrow> TcpLgc \<Rightarrow> TcpSocketState \<Rightarrow> uint32_t \<Rightarrow> Time \<Rightarrow> lgc_trace list \<times> TcpLgc" where
  "PktsAcked geq s tcb segmentsAcked rtt =
     (let s1 = s\<lparr>m_ackedBytesTotal := m_ackedBytesTotal s + segmentsAcked * m_segmentSize tcb\<rparr>;
          s2 = (if m_ecnState tcb = ECN_ECE_RCVD
                then s1\<lparr>m_ackedBytesEcn := m_ackedBytesEcn s1 + segmentsAcked * m_segmentSize tcb\<rparr>
                else s1);
          s3 = (if m_nextSeqFlag s2 = False
                then s2\<lparr>m_nextSeq := m_nextTxSequence tcb, m_nextSeqFlag := True\<rparr>
                else s2)
      in if geq (m_lastAckedSeq tcb) (m_nextSeq s3)
         then
           let bytesEcn = (if m_ackedBytesTotal s3 > 0
                           then real (unat (m_ackedBytesEcn s3)) * 1 / real (unat (m_ackedBytesTotal s3))
                           else 0);
               s4 = s3\<lparr>m_alpha_lgc := (1 - m_g s3) * m_alpha_lgc s3 + m_g s3 * bytesEcn\<rparr>
           in ([CongestionEstimate (m_ackedBytesEcn s4) (m_ackedBytesTotal s4) (m_alpha_lgc s4)],
               Reset s4 tcb)
         else ([], s3))"

definition InitializeDctcpAlpha :: "TcpLgc \<Rightarrow> double \<Rightarrow> error + TcpLgc" where
  "InitializeDctcpAlpha s alpha =
     (if m_initialized s then Inl (Abort ''DCTCP has already been initialized'')
      else Inr (s\<lparr>m_alpha_lgc := alpha\<rparr>))"

text \<open>A call of \<open>PktsAcked\<close>: the socket state it sees, the number of segments
  acknowledged and the round-trip time. A sequence of calls runs from left to right.\<close>

type_synonym ack_call = "TcpSocketState \<times> uint32_t \<times> Time"

fun PktsAcked_calls :: "(SequenceNumber32 \<Rightarrow> SequenceNumber32 \<Rightarrow> bool)
    \<Rightarrow> TcpLgc \<Rightarrow> ack_call list \<Rightarrow> TcpLgc" where
  "PktsAcked_calls geq s [] = s"
| "PktsAcked_calls geq s ((tcb, segmentsAcked, rtt) # cs) =
     PktsAcked_calls geq (snd (PktsAcked geq s tcb segmentsAcked rtt)) cs"

text \<open>No call of the sequence makes the addition to \<open>m_ackedBytesTotal\<close> wrap
  around.\<close>

fun total_never_wraps :: "(SequenceNumber32 \<Rightarrow> SequenceNumber32 \<Rightarrow> bool)
    \<Rightarrow> TcpLgc \<Rightarrow> ack_call list \<Rightarrow> bool" where
  "total_never_wraps geq s [] = True"
| "total_never_wraps geq s ((tcb, segmentsAcked, rtt) # cs) =
     (unat (m_ackedBytesTotal s) + unat (segmentsAcked * m_segmentSize tcb) < 2 ^ 32
      \<and> total_never_wraps geq (snd (PktsAcked geq s tcb segmentsAcked rtt)) cs)"


section \<open>Example configurations\<close>

text \<open>A packet of 1000 bytes that arrived at time 5, and a queue disc with the default
  parameters of the attributes (15 ms as nanoseconds, 100 Mbps), a mark probability of
  one half, room for two packets and one packet in its queue.\<close>

definition pkt_example :: QueueDiscItem where
  "pkt_example = \<lparr>GetSize = 1000, GetTimeStamp = 5, IsEcnCapable = True,
                   CongestionExperienced = False\<rparr>"

definition shq_example :: ShqQueueDisc where
  "shq_example =
     \<lparr>m_sUpdate = 0, m_tInterval = 15000000, m_meanPktSize = 1000, m_maxP = 9 / 10,
      m_alpha = 1 / 4, m_linkBandwidth = 100000000, m_useEcn = True, m_countBytes = 0,
      m_qAvg = 0, m_qCur = 0, m_markProb = Finite (1 / 2), m_qDelay = 0,
      m_maxBytes = 187500, m_rtrsEvent = None, m_maxSize = QueueSize PACKETS 2,
      InternalQueue = [pkt_example]\<rparr>"

text \<open>A socket state whose last acknowledgment carried an ECN echo, an estimator in an
  open window, and a comparison of sequence numbers by their unsigned values (which is
  how they compare when they are less than half the sequence space apart).\<close>

definition tcb_example :: TcpSocketState where
  "tcb_example =
     \<lparr>m_cWnd = 3, m_segmentSize = 50, m_ecnState = ECN_ECE_RCVD,
      m_nextTxSequence = 9000, m_lastAckedSeq = 5000,
      m_useEcn_tcb = On, m_ecnMode = DctcpEcn, m_ectCodePoint = Ect0\<rparr>"

definition lgc_example :: TcpLgc where
  "lgc_example =
     (TcpLgc_new (1 / 2) (1 / 16) True)
       \<lparr>m_ackedBytesTotal := 150, m_nextSeq := 4000, m_nextSeqFlag := True\<rparr>"

text \<open>The double nearest to 0.2.\<close>

definition double_0_2 :: double where
  "double_0_2 = 3602879701896397 / 18014398509481984"

definition seq_geq :: "SequenceNumber32 \<Rightarrow> SequenceNumber32 \<Rightarrow> bool" where
  "seq_geq a b = (b \<le> a)"

text \<open>Two socket states of a connection with segments of 1000 bytes whose window does
  not close: one without and one with an ECN echo.\<close>

definition tcb_wrap1 :: TcpSocketState where
  "tcb_wrap1 =
     \<lparr>m_cWnd = 10000, m_segmentSize = 1000, m_ecnState = ECN_IDLE,
      m_nextTxSequence = 9000, m_lastAckedSeq = 5000,
      m_useEcn_tcb = On, m_ecnMode = DctcpEcn, m_ectCodePoint = Ect0\<rparr>"

definition tcb_wrap2 :: TcpSocketState where
  "tcb_wrap2 = tcb_wrap1\<lparr>m_ecnState := ECN_ECE_RCVD, m_lastAckedSeq := 6000\<rparr>"

section \<open>The periodic recomputation\<close>

text \<open>
  Claim C1. Every run of \<open>CalculateProb\<close>, with \<open>n\<close> the backlog of the queue (the
  number of its packets or the sum of their bytes, as a \<open>uint32_t\<close>), first adds
  \<open>n * m_meanPktSize\<close> to \<open>m_countBytes\<close> (in 32-bit unsigned arithmetic), then
  sets \<open>m_qAvg\<close> to \<open>m_qAvg * (1 - m_alpha) + m_countBytes * m_alpha\<close> with that
  sum as \<open>m_countBytes\<close>, then sets \<open>m_markProb\<close> to the quotient
  \<open>m_maxP * m_qAvg / m_maxBytes\<close> for the new \<open>m_qAvg\<close>, whatever its value (with
  \<open>m_maxBytes = 0\<close> the division gives an infinity with the sign of the dividend, or
  NaN for a zero dividend), then resets \<open>m_countBytes\<close> to zero and schedules itself
  \<open>m_tInterval\<close> after the current time. Nothing else changes.
\<close>

theorem CalculateProb_steps:
  "backlog s =
     of_nat (case GetUnit (m_maxSize s) of
               PACKETS \<Rightarrow> length (InternalQueue s)
             | BYTES \<Rightarrow> sum_list (map (\<lambda>i. unat (GetSize i)) (InternalQueue s)))
   \<and> CalculateProb s now =
     s\<lparr>m_countBytes := 0,
       m_qAvg := m_qAvg s * (1 - m_alpha s)
                 + real (unat (m_countBytes s + backlog s * m_meanPktSize s)) * m_alpha s,
       m_markProb :=
         (if m_maxBytes s \<noteq> 0
          then Finite (m_maxP s * (m_qAvg s * (1 - m_alpha s)
                  + real (unat (m_countBytes s + backlog s * m_meanPktSize s)) * m_alpha s)
                 / real (unat (m_maxBytes s)))
          else if 0 < m_maxP s * (m_qAvg s * (1 - m_alpha s)
                  + real (unat (m_countBytes s + backlog s * m_meanPktSize s)) * m_alpha s)
          then PlusInf
          else if m_maxP s * (m_qAvg s * (1 - m_alpha s)
                  + real (unat (m_countBytes s + backlog s * m_meanPktSize s)) * m_alpha s) < 0
          then MinusInf
          else NaN),
       m_rtrsEvent := Some (now + m_tInterval s)\<rparr>"
proof -
  have b: "backlog s =
     of_nat (case GetUnit (m_maxSize s) of
               PACKETS \<Rightarrow> length (InternalQueue s)
             | BYTES \<Rightarrow> sum_list (map (\<lambda>i. unat (GetSize i)) (InternalQueue s)))"
    by (cases "GetUnit (m_maxSize s)")
       (simp_all add: backlog_def QueueCurrentSize_def GetMaxSize_def GetNPackets_def
          GetNBytes_def)
  show ?thesis
    by (rule conjI [OF b])
       (simp add: CalculateProb_def backlog_def Schedule_def ddiv_def Let_def
          del: of_nat_unat)
qed

text \<open>With one packet in the queue, \<open>m_alpha = 0.25\<close>, \<open>m_maxP = 0.9\<close> and 187500
  bytes to an interval, the average becomes 250 and the mark probability 0.0012. With 3000
  bytes counted and 100 bytes to an interval the mark probability becomes 9, above
  \<open>m_maxP\<close> and above 1. With no bytes to an interval it is infinite.\<close>

theorem CalculateProb_steps_witness:
  "backlog shq_example = 1
   \<and> CalculateProb shq_example 7 =
       shq_example\<lparr>m_qAvg := 250, m_markProb := Finite (3 / 2500),
         m_rtrsEvent := Some 15000007\<rparr>
   \<and> CalculateProb (shq_example\<lparr>m_countBytes := 3000, m_maxBytes := 100\<rparr>) 7 =
       shq_example\<lparr>m_countBytes := 0, m_maxBytes := 100, m_qAvg := 1000,
         m_markProb := Finite 9, m_rtrsEvent := Some 15000007\<rparr>
   \<and> m_maxP shq_example < 9
   \<and> CalculateProb (shq_example\<lparr>m_maxBytes := 0\<rparr>) 7 =
       shq_example\<lparr>m_maxBytes := 0, m_qAvg := 250, m_markProb := PlusInf,
         m_rtrsEvent := Some 15000007\<rparr>"
  using CalculateProb_steps [of shq_example 7]
    CalculateProb_steps [of "shq_example\<lparr>m_countBytes := 3000, m_maxBytes := 100\<rparr>" 7]
    CalculateProb_steps [of "shq_example\<lparr>m_maxBytes := 0\<rparr>" 7]
  by (simp add: shq_example_def)

section \<open>Admission\<close>

lemma QueueSize_plus_CE [simp]:
  "QueueSize_plus n (item\<lparr>CongestionExperienced := b\<rparr>) = QueueSize_plus n item"
  by (simp add: QueueSize_plus_def split: QueueSizeUnit.splits)

text \<open>An item that passed the capacity check of \<open>DoEnqueue\<close> is accepted by the
  internal queue, which has the same capacity.\<close>

lemma EnqueueInternal_fits:
  assumes "\<not> QueueSize_gt (QueueSize_plus (GetCurrentSize s) item) (GetMaxSize s)"
  shows "EnqueueInternal (s\<lparr>m_countBytes := c\<rparr>) item tr
           = (True, tr, s\<lparr>m_countBytes := c, InternalQueue := InternalQueue s @ [item]\<rparr>)"
  using assms by (simp add: EnqueueInternal_def Enqueue_def GetCurrentSize_def GetMaxSize_def)

text \<open>
  Claim C2. The capacity check of \<open>DoEnqueue\<close> fails when the number of packets in
  the queue plus one, or the bytes in the queue plus those of the packet, exceed the
  maximum size. For every packet that passes it, the byte length of the packet is added to \<open>m_countBytes\<close> on every path. With \<open>u\<close> the
  random draw and a finite \<open>m_markProb = p\<close>: if \<open>u < p\<close> and ECN is enabled and the
  packet is ECN-capable, the packet is marked (reason \<open>UNFORCED_MARK\<close>) and appended to
  the queue; if \<open>u < p\<close> and ECN is disabled or the marking fails, the packet is
  rejected with reason \<open>UNFORCED_DROP\<close>, the queue is unchanged and \<open>m_countBytes\<close>
  keeps the added length; if \<open>u \<ge> p\<close>, the packet is appended to the queue unmarked.
  An infinite positive \<open>m_markProb\<close> selects every packet; a negative infinite one
  and NaN select none.
\<close>

theorem DoEnqueue_admitted:
  "(QueueSize_gt (QueueSize_plus (GetCurrentSize s) item) (GetMaxSize s) \<longleftrightarrow>
      GetValue (m_maxSize s)
        < (case GetUnit (m_maxSize s) of
             PACKETS \<Rightarrow> length (InternalQueue s) + 1
           | BYTES \<Rightarrow> sum_list (map (\<lambda>i. unat (GetSize i)) (InternalQueue s))
                        + unat (GetSize item)))
   \<and> (\<not> QueueSize_gt (QueueSize_plus (GetCurrentSize s) item) (GetMaxSize s) \<longrightarrow>
     m_countBytes (snd (snd (DoEnqueue s u item))) = m_countBytes s + GetSize item
   \<and> (m_markProb s = Finite p \<and> u < p \<and> m_useEcn s \<and> IsEcnCapable item \<longrightarrow>
        DoEnqueue s u item =
          (True, [MarkTrace (item\<lparr>CongestionExperienced := True\<rparr>) UNFORCED_MARK],
           s\<lparr>m_countBytes := m_countBytes s + GetSize item,
             InternalQueue := InternalQueue s @ [item\<lparr>CongestionExperienced := True\<rparr>]\<rparr>))
   \<and> (m_markProb s = Finite p \<and> u < p \<and> (\<not> m_useEcn s \<or> \<not> IsEcnCapable item) \<longrightarrow>
        DoEnqueue s u item =
          (False, [DropBeforeEnqueue item UNFORCED_DROP],
           s\<lparr>m_countBytes := m_countBytes s + GetSize item\<rparr>))
   \<and> (m_markProb s = Finite p \<and> p \<le> u \<longrightarrow>
        DoEnqueue s u item =
          (True, [], s\<lparr>m_countBytes := m_countBytes s + GetSize item,
                       InternalQueue := InternalQueue s @ [item]\<rparr>))
   \<and> (m_markProb s = PlusInf \<and> m_useEcn s \<and> IsEcnCapable item \<longrightarrow>
        DoEnqueue s u item =
          (True, [MarkTrace (item\<lparr>CongestionExperienced := True\<rparr>) UNFORCED_MARK],
           s\<lparr>m_countBytes := m_countBytes s + GetSize item,
             InternalQueue := InternalQueue s @ [item\<lparr>CongestionExperienced := True\<rparr>]\<rparr>))
   \<and> (m_markProb s = PlusInf \<and> (\<not> m_useEcn s \<or> \<not> IsEcnCapable item) \<longrightarrow>
        DoEnqueue s u item =
          (False, [DropBeforeEnqueue item UNFORCED_DROP],
           s\<lparr>m_countBytes := m_countBytes s + GetSize item\<rparr>))
   \<and> (m_markProb s = MinusInf \<or> m_markProb s = NaN \<longrightarrow>
        DoEnqueue s u item =
          (True, [], s\<lparr>m_countBytes := m_countBytes s + GetSize item,
                       InternalQueue := InternalQueue s @ [item]\<rparr>)))"
proof (rule conjI, goal_cases)
  case 1
  show ?case
    by (cases "GetUnit (m_maxSize s)")
       (simp_all add: QueueSize_gt_def QueueSize_plus_def GetCurrentSize_def GetMaxSize_def
          QueueCurrentSize_def GetNPackets_def GetNBytes_def)
next
  case 2
  show ?case
  proof (rule impI)
  assume fits: "\<not> QueueSize_gt (QueueSize_plus (GetCurrentSize s) item) (GetMaxSize s)"
  let ?c = "m_countBytes s + GetSize item"
  let ?marked = "item\<lparr>CongestionExperienced := True\<rparr>"
  let ?mark = "(True, [MarkTrace ?marked UNFORCED_MARK],
      s\<lparr>m_countBytes := ?c, InternalQueue := InternalQueue s @ [?marked]\<rparr>)"
  let ?drop = "(False, [DropBeforeEnqueue item UNFORCED_DROP], s\<lparr>m_countBytes := ?c\<rparr>)"
  let ?accept = "(True, [], s\<lparr>m_countBytes := ?c, InternalQueue := InternalQueue s @ [item]\<rparr>)"
  have fits': "\<not> QueueSize_gt (QueueSize_plus (GetCurrentSize s) ?marked) (GetMaxSize s)"
    using fits by simp
  have plain: "EnqueueInternal (s\<lparr>m_countBytes := ?c\<rparr>) item [] = ?accept"
    by (rule EnqueueInternal_fits [OF fits])
  have marked: "EnqueueInternal (s\<lparr>m_countBytes := ?c\<rparr>) ?marked tr =
      (True, tr, s\<lparr>m_countBytes := ?c, InternalQueue := InternalQueue s @ [?marked]\<rparr>)" for tr
    by (rule EnqueueInternal_fits [OF fits'])
  have selected: "DoEnqueue s u item = (if m_useEcn s \<and> IsEcnCapable item then ?mark else ?drop)"
    if "dless u (m_markProb s)"
    using fits marked that by (simp add: DoEnqueue_def ShouldMark_def Mark_def Let_def)
  have passed: "DoEnqueue s u item = ?accept" if "\<not> dless u (m_markProb s)"
    using fits plain that by (simp add: DoEnqueue_def ShouldMark_def Let_def)
  have count: "m_countBytes (snd (snd (DoEnqueue s u item))) = ?c"
    by (cases "dless u (m_markProb s)") (simp_all add: selected passed)
  have fin_lt: "DoEnqueue s u item = (if m_useEcn s \<and> IsEcnCapable item then ?mark else ?drop)"
    if "m_markProb s = Finite p" "u < p"
    by (rule selected) (simp add: that)
  have fin_ge: "DoEnqueue s u item = ?accept" if "m_markProb s = Finite p" "p \<le> u"
    by (rule passed) (use that in \<open>simp add: not_less\<close>)
  have pinf: "DoEnqueue s u item = (if m_useEcn s \<and> IsEcnCapable item then ?mark else ?drop)"
    if "m_markProb s = PlusInf"
    by (rule selected) (simp add: that)
  have none: "DoEnqueue s u item = ?accept" if "m_markProb s = MinusInf \<or> m_markProb s = NaN"
    by (rule passed) (use that in auto)
  show "m_countBytes (snd (snd (DoEnqueue s u item))) = ?c
   \<and> (m_markProb s = Finite p \<and> u < p \<and> m_useEcn s \<and> IsEcnCapable item \<longrightarrow>
        DoEnqueue s u item = ?mark)
   \<and> (m_markProb s = Finite p \<and> u < p \<and> (\<not> m_useEcn s \<or> \<not> IsEcnCapable item) \<longrightarrow>
        DoEnqueue s u item = ?drop)
   \<and> (m_markProb s = Finite p \<and> p \<le> u \<longrightarrow> DoEnqueue s u item = ?accept)
   \<and> (m_markProb s = PlusInf \<and> m_useEcn s \<and> IsEcnCapable item \<longrightarrow>
        DoEnqueue s u item = ?mark)
   \<and> (m_markProb s = PlusInf \<and> (\<not> m_useEcn s \<or> \<not> IsEcnCapable item) \<longrightarrow>
        DoEnqueue s u item = ?drop)
   \<and> (m_markProb s = MinusInf \<or> m_markProb s = NaN \<longrightarrow> DoEnqueue s u item = ?accept)"
    using count fin_lt fin_ge pinf none by auto
  qed
qed

text \<open>With a mark probability of 0.2: the draw 0.1 marks an ECN-capable packet and drops
  it when ECN is disabled, the draws 0.2 and 0.25 accept it unmarked.\<close>

theorem DoEnqueue_admitted_witness:
  "\<not> QueueSize_gt (QueueSize_plus (GetCurrentSize shq_example) pkt_example) (GetMaxSize shq_example)
   \<and> DoEnqueue (shq_example\<lparr>m_markProb := Finite (1 / 5)\<rparr>) (1 / 10) pkt_example =
        (True, [MarkTrace (pkt_example\<lparr>CongestionExperienced := True\<rparr>) UNFORCED_MARK],
         shq_example\<lparr>m_markProb := Finite (1 / 5), m_countBytes := 1000,
           InternalQueue := [pkt_example, pkt_example\<lparr>CongestionExperienced := True\<rparr>]\<rparr>)
   \<and> DoEnqueue (shq_example\<lparr>m_markProb := Finite (1 / 5), m_useEcn := False\<rparr>) (1 / 10)
          pkt_example =
        (False, [DropBeforeEnqueue pkt_example UNFORCED_DROP],
         shq_example\<lparr>m_markProb := Finite (1 / 5), m_useEcn := False, m_countBytes := 1000\<rparr>)
   \<and> DoEnqueue (shq_example\<lparr>m_markProb := Finite (1 / 5)\<rparr>) (1 / 5) pkt_example =
        (True, [], shq_example\<lparr>m_markProb := Finite (1 / 5), m_countBytes := 1000,
           InternalQueue := [pkt_example, pkt_example]\<rparr>)
   \<and> DoEnqueue (shq_example\<lparr>m_markProb := Finite (1 / 5)\<rparr>) (1 / 4) pkt_example =
        (True, [], shq_example\<lparr>m_markProb := Finite (1 / 5), m_countBytes := 1000,
           InternalQueue := [pkt_example, pkt_example]\<rparr>)"
  using DoEnqueue_admitted [of "shq_example\<lparr>m_markProb := Finite (1 / 5)\<rparr>" pkt_example
      "1 / 10" "1 / 5"]
    DoEnqueue_admitted [of "shq_example\<lparr>m_markProb := Finite (1 / 5), m_useEcn := False\<rparr>"
      pkt_example "1 / 10" "1 / 5"]
    DoEnqueue_admitted [of "shq_example\<lparr>m_markProb := Finite (1 / 5)\<rparr>" pkt_example
      "1 / 5" "1 / 5"]
    DoEnqueue_admitted [of "shq_example\<lparr>m_markProb := Finite (1 / 5)\<rparr>" pkt_example
      "1 / 4" "1 / 5"]
  by (simp add: shq_example_def pkt_example_def GetCurrentSize_def GetMaxSize_def
        QueueCurrentSize_def QueueSize_plus_def QueueSize_gt_def GetNPackets_def)

section \<open>The capacity invariant\<close>

lemma DoEnqueue_forced_drop:
  "QueueSize_gt (QueueSize_plus (GetCurrentSize s) item) (GetMaxSize s) \<Longrightarrow>
   DoEnqueue s u item = (False, [DropBeforeEnqueue item FORCED_DROP], s)"
  by (simp add: DoEnqueue_def)

lemma within_capacity_EnqueueInternal:
  "within_capacity s \<Longrightarrow> within_capacity (snd (snd (EnqueueInternal s item tr)))"
  by (cases "GetUnit (m_maxSize s)")
     (auto simp: EnqueueInternal_def Enqueue_def within_capacity_def GetCurrentSize_def
        GetMaxSize_def QueueSize_gt_def QueueSize_plus_def QueueCurrentSize_def
        GetNPackets_def GetNBytes_def)

lemma within_capacity_countBytes [simp]:
  "within_capacity (s\<lparr>m_countBytes := c\<rparr>) = within_capacity s"
  by (simp add: within_capacity_def GetCurrentSize_def GetMaxSize_def)

lemma within_capacity_DoEnqueue:
  "within_capacity s \<Longrightarrow> within_capacity (snd (snd (DoEnqueue s u item)))"
  by (simp add: DoEnqueue_def Let_def Mark_def within_capacity_EnqueueInternal)

lemma DoDequeue_Nil:
  "InternalQueue s = [] \<Longrightarrow> DoDequeue s now = Inr (None, s)"
  by (simp add: DoDequeue_def IsEmpty_def GetNPackets_def)

lemma DoDequeue_Cons:
  "InternalQueue s = item # rest \<Longrightarrow>
   DoDequeue s now =
     Inr (Some item,
          s\<lparr>InternalQueue := rest,
            m_qDelay := (if GetNBytes rest = 0 then 0 else now - GetTimeStamp item)\<rparr>)"
  by (simp add: DoDequeue_def IsEmpty_def GetNPackets_def Dequeue_def Seconds0_def Let_def)

lemma within_capacity_tl:
  "within_capacity s \<Longrightarrow> InternalQueue s = item # rest \<Longrightarrow>
   within_capacity (s\<lparr>InternalQueue := rest, m_qDelay := d\<rparr>)"
  by (cases "GetUnit (m_maxSize s)")
     (auto simp: within_capacity_def GetCurrentSize_def GetMaxSize_def QueueSize_gt_def
        QueueCurrentSize_def GetNPackets_def GetNBytes_def)

lemma within_capacity_DoDequeue:
  "within_capacity s \<Longrightarrow>
   \<exists>r s'. DoDequeue s now = Inr (r, s') \<and> within_capacity s'"
proof (cases "InternalQueue s")
  case Nil
  assume "within_capacity s"
  then show ?thesis by (simp add: DoDequeue_Nil [OF Nil])
next
  case (Cons item rest)
  assume "within_capacity s"
  then show ?thesis by (simp add: DoDequeue_Cons [OF Cons] within_capacity_tl [OF _ Cons])
qed

lemma within_capacity_CalculateProb:
  "within_capacity s \<Longrightarrow> within_capacity (CalculateProb s now)"
  by (simp add: CalculateProb_def within_capacity_def GetCurrentSize_def GetMaxSize_def Let_def)

lemma within_capacity_shq_step:
  assumes "within_capacity s"
  shows "\<exists>s'. shq_step s e = Inr s' \<and> within_capacity s'"
proof (cases e)
  case (Arrival u item)
  then show ?thesis using assms by (simp add: within_capacity_DoEnqueue)
next
  case (Departure now)
  from within_capacity_DoDequeue [OF assms, of now]
  obtain r s' where "DoDequeue s now = Inr (r, s')" and "within_capacity s'" by blast
  then show ?thesis by (simp add: Departure)
next
  case (TimerExpiry now)
  then show ?thesis using assms by (simp add: within_capacity_CalculateProb)
qed

lemma within_capacity_shq_run:
  "within_capacity s \<Longrightarrow> \<exists>s'. shq_run s es = Inr s' \<and> within_capacity s'"
proof (induction es arbitrary: s)
  case Nil
  then show ?case by simp
next
  case (Cons e es)
  from within_capacity_shq_step [OF Cons.prems, of e]
  obtain s1 where step: "shq_step s e = Inr s1" and inv: "within_capacity s1" by blast
  from Cons.IH [OF inv] show ?case by (simp add: step)
qed

text \<open>
  Claim C3. From a state whose queue is within its capacity (the empty queue is), every
  sequence of arrivals, departures and timer expiries runs without a failed assertion to
  a state whose queue is within its capacity. A packet whose addition would exceed the
  maximum size is rejected with reason \<open>FORCED_DROP\<close>, with no mark, and the whole
  state, the queue and \<open>m_countBytes\<close> included, is as it was.
\<close>

theorem capacity_invariant:
  "(within_capacity s \<longrightarrow> (\<exists>s'. shq_run s es = Inr s' \<and> within_capacity s'))
   \<and> (QueueSize_gt (QueueSize_plus (GetCurrentSize s) item) (GetMaxSize s) \<longrightarrow>
        DoEnqueue s u item = (False, [DropBeforeEnqueue item FORCED_DROP], s))"
  by (simp add: within_capacity_shq_run DoEnqueue_forced_drop)

theorem capacity_invariant_witness:
  "within_capacity shq_example
   \<and> (case shq_run shq_example
              [Arrival (3 / 4) pkt_example, Arrival (3 / 4) pkt_example, TimerExpiry 7,
               Departure 9] of
         Inl e \<Rightarrow> False
       | Inr s' \<Rightarrow> within_capacity s' \<and> InternalQueue s' = [pkt_example])
   \<and> QueueSize_gt (QueueSize_plus
          (GetCurrentSize (shq_example\<lparr>InternalQueue := [pkt_example, pkt_example]\<rparr>)) pkt_example)
        (GetMaxSize (shq_example\<lparr>InternalQueue := [pkt_example, pkt_example]\<rparr>))
   \<and> DoEnqueue (shq_example\<lparr>InternalQueue := [pkt_example, pkt_example]\<rparr>) (1 / 4) pkt_example
       = (False, [DropBeforeEnqueue pkt_example FORCED_DROP],
          shq_example\<lparr>InternalQueue := [pkt_example, pkt_example]\<rparr>)"
  using capacity_invariant [of shq_example
      "[Arrival (3 / 4) pkt_example, Arrival (3 / 4) pkt_example, TimerExpiry 7, Departure 9]"
      pkt_example "1 / 4"]
    capacity_invariant [of "shq_example\<lparr>InternalQueue := [pkt_example, pkt_example]\<rparr>" "[]"
      pkt_example "1 / 4"]
  by (simp add: shq_example_def within_capacity_def GetCurrentSize_def GetMaxSize_def
        QueueCurrentSize_def QueueSize_plus_def QueueSize_gt_def GetNPackets_def
        DoEnqueue_def ShouldMark_def EnqueueInternal_def Enqueue_def CalculateProb_def
        DoDequeue_def Dequeue_def IsEmpty_def Let_def)

section \<open>Departure\<close>

text \<open>
  Claim C6. \<open>DoDequeue\<close> on an empty queue returns no packet and leaves the state as it
  is. On a queue with head \<open>item\<close> it returns \<open>item\<close>, removes it, and sets the
  queue delay to the current time minus the timestamp of \<open>item\<close>, or to zero when the
  bytes left in the queue are zero; nothing else changes, and the assertion does not
  fail.
\<close>

theorem DoDequeue_delay:
  "(InternalQueue s = [] \<longrightarrow> DoDequeue s now = Inr (None, s))
   \<and> (InternalQueue s = item # rest \<longrightarrow>
        (\<exists>s'. DoDequeue s now = Inr (Some item, s')
           \<and> InternalQueue s' = rest
           \<and> GetQueueDelay s' = (if GetNBytes rest = 0 then 0 else now - GetTimeStamp item)
           \<and> s' = s\<lparr>InternalQueue := rest, m_qDelay := GetQueueDelay s'\<rparr>))"
  by (simp add: DoDequeue_Nil DoDequeue_Cons GetQueueDelay_def)

theorem DoDequeue_delay_witness:
  "InternalQueue (shq_example\<lparr>InternalQueue := []\<rparr>) = []
   \<and> DoDequeue (shq_example\<lparr>InternalQueue := []\<rparr>) 12
       = Inr (None, shq_example\<lparr>InternalQueue := []\<rparr>)
   \<and> InternalQueue shq_example = pkt_example # []
   \<and> DoDequeue shq_example 12
       = Inr (Some pkt_example, shq_example\<lparr>InternalQueue := [], m_qDelay := 0\<rparr>)
   \<and> InternalQueue (shq_example\<lparr>InternalQueue := [pkt_example, pkt_example]\<rparr>)
       = pkt_example # [pkt_example]
   \<and> DoDequeue (shq_example\<lparr>InternalQueue := [pkt_example, pkt_example]\<rparr>) 12
       = Inr (Some pkt_example, shq_example\<lparr>InternalQueue := [pkt_example], m_qDelay := 7\<rparr>)"
  using DoDequeue_delay [of "shq_example\<lparr>InternalQueue := []\<rparr>" 12 pkt_example "[]"]
    DoDequeue_delay [of shq_example 12 pkt_example "[]"]
    DoDequeue_delay [of "shq_example\<lparr>InternalQueue := [pkt_example, pkt_example]\<rparr>"
      12 pkt_example "[pkt_example]"]
  by (simp add: shq_example_def pkt_example_def GetNBytes_def GetQueueDelay_def
        DoDequeue_def Dequeue_def IsEmpty_def GetNPackets_def Seconds0_def Let_def)

section \<open>What the per-packet operations leave alone\<close>

text \<open>
  Claim C8. \<open>DoEnqueue\<close> and \<open>DoDequeue\<close> leave \<open>m_markProb\<close> and \<open>m_qAvg\<close> as
  they were, from every state and for every packet, draw and time (and \<open>DoDequeue\<close>
  returns).
\<close>

theorem markProb_qAvg_frame:
  "m_markProb (snd (snd (DoEnqueue s u item))) = m_markProb s
   \<and> m_qAvg (snd (snd (DoEnqueue s u item))) = m_qAvg s
   \<and> (case DoDequeue s now of
         Inl e \<Rightarrow> False
       | Inr (item, s') \<Rightarrow> m_markProb s' = m_markProb s \<and> m_qAvg s' = m_qAvg s)"
proof -
  have enq: "m_markProb (snd (snd (DoEnqueue s u item))) = m_markProb s
      \<and> m_qAvg (snd (snd (DoEnqueue s u item))) = m_qAvg s"
    by (simp add: DoEnqueue_def EnqueueInternal_def Let_def Mark_def split: prod.splits)
  have deq: "(case DoDequeue s now of
         Inl e \<Rightarrow> False
       | Inr (item, s') \<Rightarrow> m_markProb s' = m_markProb s \<and> m_qAvg s' = m_qAvg s)"
    by (cases "InternalQueue s") (simp_all add: DoDequeue_Nil DoDequeue_Cons)
  from enq deq show ?thesis by simp
qed

section \<open>The close of an observation window\<close>



section \<open>The window reduction\<close>

lemma double_to_uint32_unat:
  "double_to_uint32 x = Some r \<Longrightarrow> int (unat r) = trunc x"
  by (auto simp: double_to_uint32_def Let_def take_bit_int_eq_self unsigned_of_int
        split: if_splits)

subsection \<open>The error of a rounding\<close>

lemma rne_error: "\<bar>of_int (rne t) - t\<bar> \<le> 1 / 2"
proof -
  have "of_int \<lfloor>t\<rfloor> \<le> t" and "t < of_int \<lfloor>t\<rfloor> + 1" by linarith+
  then show ?thesis by (auto simp: rne_def Let_def)
qed

lemma log2_floor_le: "0 < n \<Longrightarrow> 2 ^ log2_floor n \<le> n"
proof (induction n rule: log2_floor.induct)
  case (1 n)
  show ?case
  proof (cases "n < 2")
    case True
    with "1.prems" show ?thesis by (simp add: log2_floor.simps [of n])
  next
    case False
    then have "0 < n div 2" by simp
    with "1.IH" False have "2 ^ log2_floor (n div 2) \<le> n div 2" by simp
    then have "2 * 2 ^ log2_floor (n div 2) \<le> n" by simp
    with False show ?thesis by (simp add: log2_floor.simps [of n])
  qed
qed

lemma log2_floor_less: "n < 2 ^ Suc (log2_floor n)"
proof (induction n rule: log2_floor.induct)
  case (1 n)
  show ?case
  proof (cases "n < 2")
    case True
    then show ?thesis by (simp add: log2_floor.simps [of n])
  next
    case False
    with "1.IH" have "n div 2 < 2 ^ Suc (log2_floor (n div 2))" by simp
    then have "n < 2 * 2 ^ Suc (log2_floor (n div 2))" by simp
    with False show ?thesis by (simp add: log2_floor.simps [of n])
  qed
qed

lemma real_pow2: "real (2 ^ k) = 2 ^ k"
  by simp

text \<open>The exponent of a number other than zero is the power of two at or below its
  magnitude.\<close>

lemma exponent_bounds:
  assumes "x \<noteq> 0"
  shows "2 powi exponent x \<le> \<bar>x\<bar>" and "\<bar>x\<bar> < 2 powi (exponent x + 1)"
proof -
  show "2 powi exponent x \<le> \<bar>x\<bar>"
  proof (cases "1 \<le> \<bar>x\<bar>")
    case True
    let ?n = "nat \<lfloor>\<bar>x\<bar>\<rfloor>"
    have n: "0 < ?n" using True by simp
    have "real (2 ^ log2_floor ?n) \<le> real ?n"
      using log2_floor_le [OF n] by (simp only: of_nat_le_iff)
    then have "2 ^ log2_floor ?n \<le> real ?n" by (simp only: real_pow2)
    also have "real ?n \<le> \<bar>x\<bar>" using True by simp
    finally show ?thesis using True by (simp add: exponent_def)
  next
    case False
    define y where "y = 1 / \<bar>x\<bar>"
    define n where "n = nat \<lceil>y\<rceil>"
    have y1: "1 < y" using False assms by (simp add: y_def)
    then have n2: "2 \<le> n" unfolding n_def by linarith
    have "n - 1 < 2 ^ Suc (log2_floor (n - 1))" by (rule log2_floor_less)
    then have "n \<le> 2 ^ Suc (log2_floor (n - 1))" by linarith
    then have "real n \<le> real (2 ^ Suc (log2_floor (n - 1)))" by (simp only: of_nat_le_iff)
    then have A: "real n \<le> 2 ^ Suc (log2_floor (n - 1))" by (simp only: real_pow2)
    have "y \<le> real n" using y1 unfolding n_def by linarith
    from this A have "y \<le> 2 ^ Suc (log2_floor (n - 1))" by (rule order_trans)
    moreover have "log2_ceil n = Suc (log2_floor (n - 1))" using n2 by (simp add: log2_ceil_def)
    ultimately have "1 / \<bar>x\<bar> \<le> 2 ^ log2_ceil n" by (simp only: y_def)
    then have "1 / 2 ^ log2_ceil n \<le> \<bar>x\<bar>"
      using assms by (simp add: field_simps)
    moreover have "exponent x = - int (log2_ceil n)"
      using False by (simp add: exponent_def n_def y_def)
    ultimately show ?thesis by (simp add: power_int_minus_divide)
  qed
  show "\<bar>x\<bar> < 2 powi (exponent x + 1)"
  proof (cases "1 \<le> \<bar>x\<bar>")
    case True
    let ?n = "nat \<lfloor>\<bar>x\<bar>\<rfloor>"
    have "?n < 2 ^ Suc (log2_floor ?n)" by (rule log2_floor_less)
    then have "?n + 1 \<le> 2 ^ Suc (log2_floor ?n)" by linarith
    then have "real (?n + 1) \<le> real (2 ^ Suc (log2_floor ?n))" by (simp only: of_nat_le_iff)
    then have A: "real (?n + 1) \<le> 2 ^ Suc (log2_floor ?n)" by (simp only: real_pow2)
    have "\<bar>x\<bar> < real (?n + 1)" using True by simp linarith
    from this A have "\<bar>x\<bar> < 2 ^ Suc (log2_floor ?n)" by (rule less_le_trans)
    moreover have "exponent x + 1 = int (Suc (log2_floor ?n))"
      using True by (simp add: exponent_def)
    ultimately show ?thesis by (simp only: power_int_of_nat)
  next
    case False
    define y where "y = 1 / \<bar>x\<bar>"
    define n where "n = nat \<lceil>y\<rceil>"
    have y1: "1 < y" using False assms by (simp add: y_def)
    then have n2: "2 \<le> n" unfolding n_def by linarith
    then have n1: "0 < n - 1" by simp
    have "real (2 ^ log2_floor (n - 1)) \<le> real (n - 1)"
      using log2_floor_le [OF n1] by (simp only: of_nat_le_iff)
    then have A: "2 ^ log2_floor (n - 1) \<le> real (n - 1)" by (simp only: real_pow2)
    have "real (n - 1) = real n - 1" using n2 by (simp add: of_nat_diff)
    moreover have "real n - 1 < y" using y1 unfolding n_def by linarith
    ultimately have "real (n - 1) < y" by simp
    with A have "2 ^ log2_floor (n - 1) < y" by (rule le_less_trans)
    then have "2 ^ log2_floor (n - 1) < 1 / \<bar>x\<bar>" by (simp only: y_def)
    then have "\<bar>x\<bar> < 1 / 2 ^ log2_floor (n - 1)"
      using assms by (simp add: field_simps)
    moreover have "log2_ceil n = Suc (log2_floor (n - 1))" using n2 by (simp add: log2_ceil_def)
    then have "exponent x + 1 = - int (log2_floor (n - 1))"
      using False by (simp add: exponent_def n_def y_def)
    ultimately show ?thesis by (simp add: power_int_minus_divide)
  qed
qed

lemma exponent_le:
  assumes "\<bar>x\<bar> \<le> 2 ^ k"
  shows "exponent x \<le> int k"
proof (cases "1 \<le> \<bar>x\<bar>")
  case True
  let ?n = "nat \<lfloor>\<bar>x\<bar>\<rfloor>"
  have n: "0 < ?n" using True by simp
  have "real (2 ^ log2_floor ?n) \<le> real ?n"
    using log2_floor_le [OF n] by (simp only: of_nat_le_iff)
  also have "real ?n \<le> \<bar>x\<bar>" using True by simp
  also have "\<bar>x\<bar> \<le> 2 ^ k" by (rule assms)
  finally have "(2::real) ^ log2_floor ?n \<le> 2 ^ k" by simp
  then have "log2_floor ?n \<le> k" by simp
  with True show ?thesis by (simp add: exponent_def)
next
  case False
  then show ?thesis by (simp add: exponent_def)
qed

lemma ulp_pos: "0 < ulp x"
  by (simp add: ulp_def)

lemma ulp_le:
  assumes "\<bar>x\<bar> \<le> 2 ^ k"
  shows "ulp x \<le> 2 powi (int k - 52)"
proof -
  have "max (exponent x) (- 1022) \<le> int k" using exponent_le [OF assms] by simp
  then show ?thesis unfolding ulp_def by (intro power_int_increasing) simp_all
qed

lemma round_double_error: "\<bar>round_double x - x\<bar> \<le> ulp x / 2"
proof -
  let ?u = "ulp x"
  have u: "0 < ?u" by (rule ulp_pos)
  have "round_double x - x = (of_int (rne (x / ?u)) - x / ?u) * ?u"
    using u by (simp add: round_double_def algebra_simps)
  then have "\<bar>round_double x - x\<bar> = \<bar>of_int (rne (x / ?u)) - x / ?u\<bar> * ?u"
    using u by (simp add: abs_mult)
  also have "\<dots> \<le> 1 / 2 * ?u"
    using rne_error [of "x / ?u"] u by (intro mult_right_mono) simp_all
  finally show ?thesis by simp
qed

lemma round_double_error_bound:
  assumes "\<bar>x\<bar> \<le> 2 ^ k"
  shows "\<bar>round_double x - x\<bar> \<le> 2 powi (int k - 53)"
proof -
  have "\<bar>round_double x - x\<bar> \<le> ulp x / 2" by (rule round_double_error)
  also have "\<dots> \<le> 2 powi (int k - 52) / 2" using ulp_le [OF assms] by simp
  also have "\<dots> = 2 powi (int k - 53)"
    by (simp add: power_int_diff)
  finally show ?thesis .
qed

text \<open>The double that \<open>GetSsThresh\<close> converts is within \<open>2 ^ -18\<close> of the exact
  product, for \<open>0 \<le> a \<le> 2\<close> and a window \<open>w\<close> below \<open>2 ^ 32\<close>.\<close>

lemma ssthresh_double_error:
  assumes a: "0 \<le> a" "a \<le> 2" and w: "0 \<le> w" "w < 2 ^ 32"
  shows "\<bar>round_double (round_double (1 - round_double (a / 2)) * w) - (1 - a / 2) * w\<bar>
           < 1 / 2 ^ 18"
proof -
  define h where "h = round_double (a / 2)"
  define f where "f = round_double (1 - h)"
  define p where "p = f * w"
  define y where "y = round_double p"
  have "\<bar>a / 2\<bar> \<le> 2 ^ 0" using a by simp
  from round_double_error_bound [OF this]
  have h: "\<bar>h - a / 2\<bar> \<le> 1 / 9007199254740992" by (simp add: h_def)
  have "\<bar>1 - h\<bar> \<le> 2" using h a by linarith
  then have "\<bar>1 - h\<bar> \<le> 2 ^ 1" by simp
  from round_double_error_bound [OF this]
  have "\<bar>f - (1 - h)\<bar> \<le> 1 / 4503599627370496" by (simp add: f_def)
  with h have f: "\<bar>f - (1 - a / 2)\<bar> \<le> 1 / 2251799813685248" by linarith
  have "\<bar>p - (1 - a / 2) * w\<bar> = \<bar>f - (1 - a / 2)\<bar> * w"
    using w by (simp add: p_def abs_mult flip: left_diff_distrib)
  also have "\<dots> \<le> 1 / 2251799813685248 * 4294967296"
    using f w by (intro mult_mono) simp_all
  finally have p: "\<bar>p - (1 - a / 2) * w\<bar> \<le> 1 / 524288" by simp
  have x0: "0 \<le> (1 - a / 2) * w" using a w by (intro mult_nonneg_nonneg) simp_all
  have "(1 - a / 2) * w \<le> 1 * w" using a w by (intro mult_right_mono) simp_all
  then have xw: "(1 - a / 2) * w \<le> 4294967296" using w by simp
  have "\<bar>p\<bar> \<le> 8589934592" using p x0 xw by linarith
  then have "\<bar>p\<bar> \<le> 2 ^ 33" by simp
  from round_double_error_bound [OF this]
  have "\<bar>y - p\<bar> \<le> 1 / 1048576" by (simp add: y_def)
  with p have "\<bar>y - (1 - a / 2) * w\<bar> < 1 / 262144" by linarith
  then have "\<bar>y - (1 - a / 2) * w\<bar> < 1 / 2 ^ 18" by simp
  then show ?thesis by (simp only: y_def p_def f_def h_def)
qed

text \<open>
  Claim C5, amended. \<open>GetSsThresh\<close> leaves the state of the estimator as it is (and
  has no access to change the socket state). What it returns is not the product of the
  window and \<open>1 - m_alpha / 2\<close> but that product as the doubles compute it, truncated
  towards zero to an unsigned 32-bit integer. For every \<open>m_alpha\<close> between 0 and 2 the
  conversion is defined, the result is at most the window, and it is more than the exact
  product minus \<open>1 + 2 ^ -18\<close> and less than the exact product plus \<open>2 ^ -18\<close>.
\<close>

theorem GetSsThresh_truncates:
  "snd (GetSsThresh s tcb bytesInFlight) = s
   \<and> (fst (GetSsThresh s tcb bytesInFlight) = Some r \<longrightarrow>
        int (unat r) =
          trunc (round_double (round_double (1 - round_double (m_alpha_lgc s / 2))
                   * real (unat (m_cWnd tcb)))))
   \<and> (0 \<le> m_alpha_lgc s \<and> m_alpha_lgc s \<le> 2 \<longrightarrow>
        (\<exists>r. fst (GetSsThresh s tcb bytesInFlight) = Some r
           \<and> r \<le> m_cWnd tcb
           \<and> real (unat (m_cWnd tcb)) * (1 - m_alpha_lgc s / 2) - 1 - 1 / 2 ^ 18
                < real (unat r)
           \<and> real (unat r)
                < real (unat (m_cWnd tcb)) * (1 - m_alpha_lgc s / 2) + 1 / 2 ^ 18))"
proof -
  define w where "w = real (unat (m_cWnd tcb))"
  define a where "a = m_alpha_lgc s"
  define y where "y = round_double (round_double (1 - round_double (a / 2)) * w)"
  have res: "fst (GetSsThresh s tcb bytesInFlight) = double_to_uint32 y"
    by (simp add: GetSsThresh_def y_def w_def a_def del: of_nat_unat)
  have frame: "snd (GetSsThresh s tcb bytesInFlight) = s"
    by (simp add: GetSsThresh_def)
  have defined: "int (unat r) = trunc y" if "fst (GetSsThresh s tcb bytesInFlight) = Some r"
  proof -
    from that res have "double_to_uint32 y = Some r" by simp
    then show ?thesis by (rule double_to_uint32_unat)
  qed
  have bounds: "\<exists>r. fst (GetSsThresh s tcb bytesInFlight) = Some r \<and> r \<le> m_cWnd tcb
      \<and> w * (1 - a / 2) - 1 - 1 / 2 ^ 18 < real (unat r)
      \<and> real (unat r) < w * (1 - a / 2) + 1 / 2 ^ 18"
    if a: "0 \<le> a" "a \<le> 2"
  proof -
    have w0: "0 \<le> w" by (simp add: w_def del: of_nat_unat)
    have "uint (m_cWnd tcb) < 2 ^ LENGTH(32)" by (rule unsigned_less)
    then have wi: "int (unat (m_cWnd tcb)) < 2 ^ 32" by simp
    then have "real_of_int (int (unat (m_cWnd tcb))) < real_of_int (2 ^ 32)"
      by (simp only: of_int_less_iff)
    then have w32: "w < 2 ^ 32" by (simp add: w_def del: of_nat_unat)
    let ?x = "(1 - a / 2) * w"
    have "\<bar>y - ?x\<bar> < 1 / 2 ^ 18"
      unfolding y_def by (rule ssthresh_double_error [OF a w0 w32])
    then have err: "\<bar>y - ?x\<bar> < 1 / 262144" by simp
    have x0: "0 \<le> ?x" using a w0 by (intro mult_nonneg_nonneg) simp_all
    have "?x \<le> 1 * w" using a w0 by (intro mult_right_mono) simp_all
    then have xw: "?x \<le> w" by simp
    have y1: "- 1 < y" using err x0 by linarith
    have t_lo: "0 \<le> trunc y"
    proof (cases "0 \<le> y")
      case True
      then show ?thesis by (simp add: trunc_def)
    next
      case False
      have "0 \<le> \<lceil>y\<rceil>" using y1 by linarith
      with False show ?thesis by (simp add: trunc_def)
    qed
    have t_up: "real_of_int (trunc y) < ?x + 1 / 262144"
    proof (cases "0 \<le> y")
      case True
      have "real_of_int \<lfloor>y\<rfloor> \<le> y" by linarith
      with err have "real_of_int \<lfloor>y\<rfloor> < ?x + 1 / 262144" by linarith
      with True show ?thesis by (simp add: trunc_def)
    next
      case False
      with y1 have "\<lceil>y\<rceil> = 0" by linarith
      moreover have "0 < ?x + 1 / 262144" using x0 by linarith
      ultimately show ?thesis using False by (simp add: trunc_def)
    qed
    have t_dn: "?x - 1 - 1 / 262144 < real_of_int (trunc y)"
    proof (cases "0 \<le> y")
      case True
      have "y - 1 < real_of_int \<lfloor>y\<rfloor>" by linarith
      with err have "?x - 1 - 1 / 262144 < real_of_int \<lfloor>y\<rfloor>" by linarith
      with True show ?thesis by (simp add: trunc_def)
    next
      case False
      have "y \<le> real_of_int \<lceil>y\<rceil>" by linarith
      with err have "?x - 1 - 1 / 262144 < real_of_int \<lceil>y\<rceil>" by linarith
      with False show ?thesis by (simp add: trunc_def)
    qed
    have "real_of_int (trunc y) < w + 1" using t_up xw by linarith
    then have "real_of_int (trunc y) < real_of_int (int (unat (m_cWnd tcb)) + 1)"
      by (simp add: w_def del: of_nat_unat)
    then have "trunc y < int (unat (m_cWnd tcb)) + 1" by (simp only: of_int_less_iff)
    then have t_w: "trunc y \<le> int (unat (m_cWnd tcb))" by simp
    with wi have t_hi: "trunc y < 2 ^ 32" by simp
    define r :: uint32_t where "r = word_of_int (trunc y)"
    have r: "double_to_uint32 y = Some r"
      using t_lo t_hi by (simp add: double_to_uint32_def r_def Let_def)
    have ur: "int (unat r) = trunc y" using r by (rule double_to_uint32_unat)
    then have ur': "real (unat r) = real_of_int (trunc y)"
      by (metis of_int_of_nat_eq)
    have "unat r \<le> unat (m_cWnd tcb)" using ur t_w by linarith
    then have le: "r \<le> m_cWnd tcb" by (simp add: word_le_nat_alt)
    have x: "w * (1 - a / 2) = ?x" by simp
    have "real (unat r) < w * (1 - a / 2) + 1 / 2 ^ 18"
      using t_up unfolding ur' x by simp
    moreover have "w * (1 - a / 2) - 1 - 1 / 2 ^ 18 < real (unat r)"
      using t_dn unfolding ur' x by simp
    moreover have "fst (GetSsThresh s tcb bytesInFlight) = Some r"
      using res r by simp
    ultimately show ?thesis using le by blast
  qed
  from frame defined bounds show ?thesis
    unfolding y_def w_def a_def by blast
qed

text \<open>For a window of 3 and \<open>m_alpha = 0.5\<close> the result is 2. For \<open>m_alpha\<close> the
  double nearest to 0.2, a window of 10 gives 9 and a window of 14480 gives 13032, where
  the floors of the exact products are 8 and 13031. For the second double above it,
  where the subtraction is a tie that goes down to the even neighbour, a window of 14480
  gives 13031; for \<open>m_alpha\<close> the double \<open>2 ^ -53\<close>, where the tie goes up to 1, a
  window of 10 gives 10.\<close>

theorem GetSsThresh_truncates_witness:
  "0 \<le> m_alpha_lgc lgc_example \<and> m_alpha_lgc lgc_example \<le> 2
   \<and> GetSsThresh lgc_example tcb_example 0 = (Some 2, lgc_example)
   \<and> 0 \<le> double_0_2 \<and> double_0_2 \<le> 2 \<and> round_double (1 / 5) = double_0_2
   \<and> GetSsThresh (lgc_example\<lparr>m_alpha_lgc := double_0_2\<rparr>) (tcb_example\<lparr>m_cWnd := 10\<rparr>) 0
        = (Some 9, lgc_example\<lparr>m_alpha_lgc := double_0_2\<rparr>)
   \<and> \<lfloor>10 * (1 - double_0_2 / 2)\<rfloor> = 8
   \<and> GetSsThresh (lgc_example\<lparr>m_alpha_lgc := double_0_2\<rparr>) (tcb_example\<lparr>m_cWnd := 14480\<rparr>) 0
        = (Some 13032, lgc_example\<lparr>m_alpha_lgc := double_0_2\<rparr>)
   \<and> \<lfloor>14480 * (1 - double_0_2 / 2)\<rfloor> = 13031
   \<and> GetSsThresh (lgc_example\<lparr>m_alpha_lgc := 1801439850948199 / 9007199254740992\<rparr>)
          (tcb_example\<lparr>m_cWnd := 14480\<rparr>) 0
        = (Some 13031, lgc_example\<lparr>m_alpha_lgc := 1801439850948199 / 9007199254740992\<rparr>)
   \<and> GetSsThresh (lgc_example\<lparr>m_alpha_lgc := 1 / 9007199254740992\<rparr>)
          (tcb_example\<lparr>m_cWnd := 10\<rparr>) 0
        = (Some 10, lgc_example\<lparr>m_alpha_lgc := 1 / 9007199254740992\<rparr>)"
  using GetSsThresh_truncates [of lgc_example tcb_example 0 2]
    GetSsThresh_truncates [of "lgc_example\<lparr>m_alpha_lgc := double_0_2\<rparr>"
      "tcb_example\<lparr>m_cWnd := 10\<rparr>" 0 9]
    GetSsThresh_truncates [of "lgc_example\<lparr>m_alpha_lgc := double_0_2\<rparr>"
      "tcb_example\<lparr>m_cWnd := 14480\<rparr>" 0 13032]
  by (simp add: lgc_example_def tcb_example_def TcpLgc_new_def GetSsThresh_def double_0_2_def
        double_to_uint32_def trunc_def round_double_def ulp_def rne_def exponent_def
        log2_ceil_def log2_floor.simps Let_def)

text \<open>For a window of 3 and \<open>m_alpha = 0.5\<close> the product is 2.25 and
  \<open>GetSsThresh\<close> returns 2.\<close>

theorem GetSsThresh_exact_counterexample:
  "fst (GetSsThresh lgc_example tcb_example 0) = Some 2
   \<and> real (unat (2 :: uint32_t))
        \<noteq> real (unat (m_cWnd tcb_example)) * (1 - m_alpha_lgc lgc_example / 2)"
  by (simp add: lgc_example_def tcb_example_def TcpLgc_new_def GetSsThresh_def
        double_to_uint32_def trunc_def round_double_def ulp_def rne_def exponent_def
        log2_ceil_def log2_floor.simps Let_def)

section \<open>Seeding alpha\<close>

lemma m_initialized_PktsAcked [simp]:
  "m_initialized (snd (PktsAcked geq s tcb segmentsAcked rtt)) = m_initialized s"
  by (simp add: PktsAcked_def Reset_def Let_def)

lemma m_initialized_PktsAcked_calls [simp]:
  "m_initialized (PktsAcked_calls geq s cs) = m_initialized s"
proof (induction cs arbitrary: s)
  case Nil
  show ?case by simp
next
  case (Cons c cs)
  obtain tcb n rtt where c: "c = (tcb, n, rtt)" by (cases c)
  show ?case by (simp add: c Cons.IH)
qed

text \<open>
  Claim C7, amended. Once \<open>Init\<close> has run on an estimator, every call of
  \<open>InitializeDctcpAlpha\<close> aborts, whatever the seed and however many calls of
  \<open>PktsAcked\<close> came in between; and a call aborts exactly when \<open>m_initialized\<close>
  is set, which \<open>InitializeDctcpAlpha\<close> itself does not do.
\<close>

theorem seed_rejected_after_Init:
  "InitializeDctcpAlpha (PktsAcked_calls geq (fst (Init s tcb)) cs) alpha
     = Inl (Abort ''DCTCP has already been initialized'')
   \<and> ((\<exists>e. InitializeDctcpAlpha s alpha = Inl e) \<longleftrightarrow> m_initialized s)"
  by (simp add: InitializeDctcpAlpha_def Init_def Let_def)

text \<open>On a new estimator two calls of \<open>InitializeDctcpAlpha\<close> in a row both
  return, and the second overwrites the seed of the first.\<close>

theorem seed_twice_counterexample:
  "(case InitializeDctcpAlpha (TcpLgc_new 0 (1 / 16) True) (3 / 10) of
      Inl e \<Rightarrow> False
    | Inr s1 \<Rightarrow>
        (case InitializeDctcpAlpha s1 (7 / 10) of
           Inl e \<Rightarrow> False
         | Inr s2 \<Rightarrow> m_alpha_lgc s1 = 3 / 10 \<and> m_alpha_lgc s2 = 7 / 10))"
  by (simp add: InitializeDctcpAlpha_def TcpLgc_new_def)

section \<open>The byte counters of a window\<close>

lemma word_add_le_nowrap:
  fixes a b x :: uint32_t
  assumes "a \<le> b" and "unat b + unat x < 2 ^ 32"
  shows "a + x \<le> b + x"
proof -
  have ab: "unat a \<le> unat b" using assms(1) by (simp add: word_le_nat_alt)
  have b: "unat (b + x) = unat b + unat x"
    using assms(2) unat_add_lem [of b x] by simp
  have "unat a + unat x < 2 ^ 32" using ab assms(2) by simp
  then have a: "unat (a + x) = unat a + unat x"
    using unat_add_lem [of a x] by simp
  show ?thesis using ab a b by (simp add: word_le_nat_alt)
qed

lemma word_le_add_nowrap:
  fixes a b x :: uint32_t
  assumes "a \<le> b" and "unat b + unat x < 2 ^ 32"
  shows "a \<le> b + x"
proof -
  have ab: "unat a \<le> unat b" using assms(1) by (simp add: word_le_nat_alt)
  have b: "unat (b + x) = unat b + unat x"
    using assms(2) unat_add_lem [of b x] by simp
  show ?thesis using ab b by (simp add: word_le_nat_alt)
qed

lemma PktsAcked_ecn_le_total:
  assumes "m_ackedBytesEcn s \<le> m_ackedBytesTotal s"
    and "unat (m_ackedBytesTotal s) + unat (segmentsAcked * m_segmentSize tcb) < 2 ^ 32"
  shows "m_ackedBytesEcn (snd (PktsAcked geq s tcb segmentsAcked rtt))
           \<le> m_ackedBytesTotal (snd (PktsAcked geq s tcb segmentsAcked rtt))"
  using word_add_le_nowrap [OF assms] word_le_add_nowrap [OF assms]
  by (simp add: PktsAcked_def Reset_def Let_def)

lemma PktsAcked_calls_ecn_le_total:
  "m_ackedBytesEcn s \<le> m_ackedBytesTotal s \<Longrightarrow> total_never_wraps geq s cs \<Longrightarrow>
   m_ackedBytesEcn (PktsAcked_calls geq s cs) \<le> m_ackedBytesTotal (PktsAcked_calls geq s cs)"
proof (induction cs arbitrary: s)
  case Nil
  then show ?case by simp
next
  case (Cons c cs)
  obtain tcb n rtt where c: "c = (tcb, n, rtt)" by (cases c)
  from Cons.prems have inv: "m_ackedBytesEcn (snd (PktsAcked geq s tcb n rtt))
           \<le> m_ackedBytesTotal (snd (PktsAcked geq s tcb n rtt))"
    by (simp add: c PktsAcked_ecn_le_total)
  from Cons.prems have "total_never_wraps geq (snd (PktsAcked geq s tcb n rtt)) cs"
    by (simp add: c)
  with inv show ?case by (simp add: c Cons.IH)
qed

text \<open>
  Claim C9, amended. \<open>m_ackedBytesEcn \<le> m_ackedBytesTotal\<close> holds in every state
  reached from a new estimator by a sequence of calls of \<open>PktsAcked\<close> in which no
  addition to \<open>m_ackedBytesTotal\<close> wraps around \<open>2^32\<close>.
\<close>

theorem ecn_le_total_without_wrap:
  "total_never_wraps geq (TcpLgc_new alpha g useEct0) cs \<longrightarrow>
   m_ackedBytesEcn (PktsAcked_calls geq (TcpLgc_new alpha g useEct0) cs)
     \<le> m_ackedBytesTotal (PktsAcked_calls geq (TcpLgc_new alpha g useEct0) cs)"
  by (simp add: PktsAcked_calls_ecn_le_total TcpLgc_new_def)

theorem ecn_le_total_witness:
  "total_never_wraps seq_geq (TcpLgc_new (1 / 2) (1 / 16) True)
      [(tcb_wrap1, 3, 0), (tcb_wrap2, 2, 0)]
   \<and> m_ackedBytesEcn (PktsAcked_calls seq_geq (TcpLgc_new (1 / 2) (1 / 16) True)
        [(tcb_wrap1, 3, 0), (tcb_wrap2, 2, 0)]) = 2000
   \<and> m_ackedBytesTotal (PktsAcked_calls seq_geq (TcpLgc_new (1 / 2) (1 / 16) True)
        [(tcb_wrap1, 3, 0), (tcb_wrap2, 2, 0)]) = 5000"
  using ecn_le_total_without_wrap [of seq_geq "1 / 2" "1 / 16" True
      "[(tcb_wrap1, 3, 0), (tcb_wrap2, 2, 0)]"]
  by (simp add: TcpLgc_new_def tcb_wrap1_def tcb_wrap2_def PktsAcked_def seq_geq_def Let_def)

text \<open>After 4294967 segments of 1000 bytes without an ECN echo, one more segment with
  an ECN echo makes the total wrap around to 704 while the marked bytes are 1000.\<close>

theorem ecn_le_total_counterexample:
  "m_ackedBytesEcn (PktsAcked_calls seq_geq (TcpLgc_new (1 / 2) (1 / 16) True)
        [(tcb_wrap1, 4294967, 0), (tcb_wrap2, 1, 0)]) = 1000
   \<and> m_ackedBytesTotal (PktsAcked_calls seq_geq (TcpLgc_new (1 / 2) (1 / 16) True)
        [(tcb_wrap1, 4294967, 0), (tcb_wrap2, 1, 0)]) = 704
   \<and> \<not> m_ackedBytesEcn (PktsAcked_calls seq_geq (TcpLgc_new (1 / 2) (1 / 16) True)
        [(tcb_wrap1, 4294967, 0), (tcb_wrap2, 1, 0)])
       \<le> m_ackedBytesTotal (PktsAcked_calls seq_geq (TcpLgc_new (1 / 2) (1 / 16) True)
        [(tcb_wrap1, 4294967, 0), (tcb_wrap2, 1, 0)])"
  by (simp add: TcpLgc_new_def tcb_wrap1_def tcb_wrap2_def PktsAcked_def seq_geq_def Let_def)

section \<open>The division by the bytes of an interval\<close>







end
